theory Spec2Isabelle
  imports Main "HOL-Library.Word"
begin

unbundle bit_operations_syntax

section \<open>Single-precision arithmetic of the target\<close>

text \<open>
  The spectral-logging application stores its running averages in C \<open>float\<close> objects.
  On the target (ARM Cortex-M, little-endian) a \<open>float\<close> is an IEEE-754 binary32 value and
  every operation rounds to nearest, ties to even. A \<open>float\<close> object is modelled by its
  32-bit pattern, so that an uninitialised object is simply an arbitrary word.
  An operation with a NaN operand returns that operand with its payload, made quiet
  (the first operand when both are NaNs). An invalid operation on other operands
  (\<open>inf - inf\<close>, \<open>0 / 0\<close>, \<open>inf / inf\<close>) returns the default NaN, whose pattern differs
  between platforms: the properties of the program below only say that such a result is
  a NaN, not which one.
\<close>

type_synonym f32 = "32 word"

text \<open>\<open>FFin s m e\<close> denotes the real number \<open>(-1)^s * m * 2^e\<close>.\<close>

datatype fval = FNaN | FInf bool | FFin bool int int

text \<open>
  The fields of a pattern \<open>u\<close>, read as an unsigned number: the sign is the bit of weight
  \<open>2^31\<close>, the biased exponent the next eight bits, the fraction the low 23 bits.
\<close>

definition decode :: "f32 \<Rightarrow> fval" where
  "decode w =
     (let u = uint w;
          s = (2 ^ 31 \<le> u);
          e = (u div 2 ^ 23) mod 256;
          f = u mod 2 ^ 23
      in if e = 255 then (if f = 0 then FInf s else FNaN)
         else if e = 0 then FFin s f (- 149)
         else FFin s (2 ^ 23 + f) (e - 150))"

definition sign_weight :: "bool \<Rightarrow> int" where
  "sign_weight s = (if s then 2 ^ 31 else 0)"

definition fzero :: "bool \<Rightarrow> f32" where
  "fzero s = word_of_int (sign_weight s)"

text \<open>The default NaN of the target.\<close>

definition qnan :: f32 where
  "qnan = 0x7FC00000"

definition infinity :: "bool \<Rightarrow> f32" where
  "infinity s = word_of_int (sign_weight s + 0x7F800000)"

text \<open>
  \<open>quiet w\<close> is \<open>w\<close> with the quiet bit (weight \<open>2^22\<close>) set: the sign, the exponent and
  the low 22 bits of the fraction, which carry the payload of a NaN, are those of \<open>w\<close>.
\<close>

definition quiet :: "f32 \<Rightarrow> f32" where
  "quiet w = word_of_int (2 ^ 23 * (uint w div 2 ^ 23) + 2 ^ 22 + uint w mod 2 ^ 22)"

text \<open>\<open>rne n d\<close> is the integer nearest to \<open>n / d\<close>, ties to even (\<open>0 \<le> n\<close>, \<open>0 < d\<close>).\<close>

definition rne :: "int \<Rightarrow> int \<Rightarrow> int" where
  "rne n d =
     (let q = n div d; r = n mod d
      in if 2 * r < d then q
         else if d < 2 * r then q + 1
         else if even q then q else q + 1)"

function bitlen :: "int \<Rightarrow> int" where
  "bitlen n = (if n \<le> 0 then 0 else 1 + bitlen (n div 2))"
  by pat_completeness auto
termination
  by (relation "measure nat") auto

declare bitlen.simps [simp del]

text \<open>\<open>ilog2 n d\<close> is the integer \<open>c\<close> with \<open>2^c \<le> n / d < 2^(c+1)\<close> (\<open>0 < n\<close>, \<open>0 < d\<close>).\<close>

definition ilog2 :: "int \<Rightarrow> int \<Rightarrow> int" where
  "ilog2 n d =
     (let c = bitlen n - bitlen d
      in if (if 0 \<le> c then d * 2 ^ nat c \<le> n else d \<le> n * 2 ^ nat (- c))
         then c else c - 1)"

text \<open>
  \<open>round_mag n d e\<close> is the 31-bit magnitude pattern of the binary32 value nearest to
  \<open>(n / d) * 2^e\<close>: the quantum is \<open>2^qe\<close>, the significand \<open>m\<close> is rounded to that quantum,
  a carry out of the significand moves into the exponent field, and a result beyond the
  largest finite value becomes infinity.
\<close>

definition round_mag :: "int \<Rightarrow> int \<Rightarrow> int \<Rightarrow> int" where
  "round_mag n d e =
     (if n = 0 then 0
      else
        let N = (if 0 \<le> e then n * 2 ^ nat e else n);
            D = (if 0 \<le> e then d else d * 2 ^ nat (- e));
            qe = max (ilog2 N D) (- 126) - 23;
            m = (if 0 \<le> qe then rne N (D * 2 ^ nat qe) else rne (N * 2 ^ nat (- qe)) D)
        in min ((qe + 149) * 2 ^ 23 + m) 0x7F800000)"

definition round_f32 :: "bool \<Rightarrow> int \<Rightarrow> int \<Rightarrow> int \<Rightarrow> f32" where
  "round_f32 s n d e = word_of_int (sign_weight s + round_mag n d e)"

definition signed_mant :: "bool \<Rightarrow> int \<Rightarrow> int" where
  "signed_mant s m = (if s then - m else m)"

text \<open>
  The sum of two operands, each given by its pattern and what the pattern decodes to.
  A NaN operand is returned quiet, with its payload.
\<close>

fun add_fval :: "f32 \<times> fval \<Rightarrow> f32 \<times> fval \<Rightarrow> f32" where
  "add_fval (a, FNaN) _ = quiet a"
| "add_fval _ (b, FNaN) = quiet b"
| "add_fval (_, FInf s) (_, FInf t) = (if s = t then infinity s else qnan)"
| "add_fval (_, FInf s) (_, FFin _ _ _) = infinity s"
| "add_fval (_, FFin _ _ _) (_, FInf t) = infinity t"
| "add_fval (_, FFin s m e) (_, FFin t n f) =
     (let g = min e f;
          total = signed_mant s m * 2 ^ nat (e - g) + signed_mant t n * 2 ^ nat (f - g)
      in if total = 0 then fzero (s \<and> t)
         else round_f32 (total < 0) \<bar>total\<bar> 1 g)"

fun neg_fval :: "fval \<Rightarrow> fval" where
  "neg_fval FNaN = FNaN"
| "neg_fval (FInf s) = FInf (\<not> s)"
| "neg_fval (FFin s m e) = FFin (\<not> s) m e"

fun div_fval :: "f32 \<times> fval \<Rightarrow> f32 \<times> fval \<Rightarrow> f32" where
  "div_fval (a, FNaN) _ = quiet a"
| "div_fval _ (b, FNaN) = quiet b"
| "div_fval (_, FInf s) (_, FInf t) = qnan"
| "div_fval (_, FInf s) (_, FFin t _ _) = infinity (s \<noteq> t)"
| "div_fval (_, FFin s _ _) (_, FInf t) = fzero (s \<noteq> t)"
| "div_fval (_, FFin s m e) (_, FFin t n f) =
     (if n = 0 then (if m = 0 then qnan else infinity (s \<noteq> t))
      else round_f32 (s \<noteq> t) m n (e - f))"

definition fadd :: "f32 \<Rightarrow> f32 \<Rightarrow> f32" where
  "fadd a b = add_fval (a, decode a) (b, decode b)"

definition fsub :: "f32 \<Rightarrow> f32 \<Rightarrow> f32" where
  "fsub a b = add_fval (a, decode a) (b, neg_fval (decode b))"

definition fdiv :: "f32 \<Rightarrow> f32 \<Rightarrow> f32" where
  "fdiv a b = div_fval (a, decode a) (b, decode b)"

text \<open>Conversion of a C \<open>int\<close> (32 bits, two's complement) to \<open>float\<close>.\<close>

definition float_of_int :: "32 word \<Rightarrow> f32" where
  "float_of_int i = round_f32 (sint i < 0) \<bar>sint i\<bar> 1 0"

text \<open>The object representation of a \<open>float\<close>: four bytes, least significant first.\<close>

definition float_bytes :: "f32 \<Rightarrow> 8 word list" where
  "float_bytes w = [ucast w, ucast (drop_bit 8 w), ucast (drop_bit 16 w), ucast (drop_bit 24 w)]"

section \<open>The bin averager\<close>

text \<open>
  \<^verbatim>\<open>float movingAvg(float prev_avg, int num_samples, int new_val)
  { return prev_avg + ((float)(new_val) - prev_avg) / num_samples; }\<close>
  The \<open>int\<close> divisor is converted to \<open>float\<close> by the usual arithmetic conversions.
\<close>

definition movingAvg :: "f32 \<Rightarrow> 32 word \<Rightarrow> 32 word \<Rightarrow> f32" where
  "movingAvg prev_avg num_samples new_val =
     fadd prev_avg (fdiv (fsub (float_of_int new_val) prev_avg) (float_of_int num_samples))"

text \<open>
  The update as the specification words it, for comparison with \<open>movingAvg\<close>:
  \<open>avg' = avg + (new_value - avg) / (observation_index + 1)\<close>.
\<close>

definition spec_update :: "f32 \<Rightarrow> 32 word \<Rightarrow> 32 word \<Rightarrow> f32" where
  "spec_update avg observation_index new_value =
     fadd avg (fdiv (fsub (float_of_int new_value) avg) (float_of_int (observation_index + 1)))"

text \<open>
  \<open>n\<close> successive updates of one bin with the same new value, at the observation indices
  \<open>0, 1, ..., n - 1\<close>, as the loop over the windows performs them.
\<close>

definition constant_updates :: "f32 \<Rightarrow> 32 word \<Rightarrow> nat \<Rightarrow> f32" where
  "constant_updates avg v n = fold (\<lambda>k a. movingAvg a (of_nat k) v) [0..<n] avg"

section \<open>The spectral-logging application\<close>

text \<open>
  The locals and the global of \<open>main\<close>. The arrays live on the stack and are not
  initialised by the program, so their first contents are inputs of the model. The last
  three fields record what the program does to the outside and to \<open>movingAvg\<close>: the lines
  printed, the commands issued to the nonvolatile-storage driver, and every call of
  \<open>movingAvg\<close> (the bin it is for and its three arguments), in program order.
\<close>

datatype printf_call = Printf string "32 word list"

datatype nv_command = Write_buffer nat | Write_done_subscribe | Nv_write nat nat

datatype movingAvg_call =
  Call (call_bin: nat) (call_prev_avg: f32) (call_num_samples: "32 word") (call_new_val: "32 word")

record main_state =
  adc_buffer :: "16 word list"
  fft_buf :: "32 word list"
  fft_mag :: "32 word list"
  avg_fft_mag :: "f32 list"
  writebuf :: "8 word list"
  wdone :: bool
  console :: "printf_call list"
  nv_commands :: "nv_command list"
  movingAvg_calls :: "movingAvg_call list"

definition adc_length :: nat where
  "adc_length = 500"

definition sizeof_float :: nat where
  "sizeof_float = 4"

definition flash_len :: nat where
  "flash_len = sizeof_float * 8"

definition printf :: "string \<Rightarrow> 32 word list \<Rightarrow> main_state \<Rightarrow> main_state" where
  "printf fmt args st = st\<lparr>console := console st @ [Printf fmt args]\<rparr>"

text \<open>
  A callee that fills a caller's array of fixed size: the array keeps its length, its
  leading elements are replaced by what the callee wrote.
\<close>

definition overwrite :: "'a list \<Rightarrow> 'a list \<Rightarrow> 'a list" where
  "overwrite new old = take (length old) new @ drop (length new) old"

text \<open>\<open>memcpy dst src n\<close>: the first \<open>n\<close> bytes of \<open>dst\<close> become the first \<open>n\<close> bytes of \<open>src\<close>.\<close>

definition memcpy :: "'a list \<Rightarrow> 'a list \<Rightarrow> nat \<Rightarrow> 'a list" where
  "memcpy dst src n = take n src @ drop n dst"

text \<open>
  Lines 34 to 37: the write buffer is shared with the driver and the completion callback
  is registered. The two return codes are inputs.
\<close>

definition main_init :: "32 word \<Rightarrow> 32 word \<Rightarrow> main_state \<Rightarrow> main_state" where
  "main_init ret_buffer ret_subscribe st =
     (let st1 = st\<lparr>nv_commands := nv_commands st @ [Write_buffer flash_len]\<rparr>;
          st2 = (if ret_buffer \<noteq> 0 then printf ''Write buffer error\<newline>'' [] st1 else st1);
          st3 = st2\<lparr>nv_commands := nv_commands st2 @ [Write_done_subscribe]\<rparr>
      in if ret_subscribe \<noteq> 0
         then printf ''ERROR setting write done callback\<newline>'' [] st3 else st3)"

text \<open>
  Lines 43 to 48. One call of \<open>adc_sample_buffer_sync\<close> is given by its result: the
  return code and the samples the driver left in the buffer.
\<close>

type_synonym adc_result = "32 word \<times> 16 word list"

definition sample_once :: "adc_result \<Rightarrow> main_state \<Rightarrow> main_state" where
  "sample_once r st =
     (let st1 = st\<lparr>adc_buffer := overwrite (snd r) (adc_buffer st)\<rparr>
      in if sint (fst r) < 0 then printf ''Error sampling ADC: %d\<newline>'' [fst r] st1 else st1)"

definition sampling :: "(nat \<Rightarrow> adc_result) \<Rightarrow> main_state \<Rightarrow> main_state" where
  "sampling adc st = fold (\<lambda>i. sample_once (adc i)) [0..<4] st"

text \<open>
  Lines 50 to 62. \<open>fft\<close> is declared in \<open>fft.h\<close>, which is not part of the sources at
  hand: it is a parameter, a function of the two arrays it is passed that returns what it
  leaves in them.
\<close>

type_synonym fft_fun = "32 word list \<Rightarrow> 32 word list \<Rightarrow> 32 word list \<times> 32 word list"

definition copy_window :: "nat \<Rightarrow> main_state \<Rightarrow> main_state" where
  "copy_window k st =
     fold (\<lambda>i s. s\<lparr>fft_buf := (fft_buf s)[i mod 16 := ucast (adc_buffer s ! i)]\<rparr>)
       [k * 16..<(k + 1) * 16] st"

definition call_fft :: "fft_fun \<Rightarrow> main_state \<Rightarrow> main_state" where
  "call_fft fft st =
     (let r = fft (fft_buf st) (fft_mag st)
      in st\<lparr>fft_buf := overwrite (fst r) (fft_buf st),
            fft_mag := overwrite (snd r) (fft_mag st)\<rparr>)"

definition update_bin :: "nat \<Rightarrow> nat \<Rightarrow> main_state \<Rightarrow> main_state" where
  "update_bin k l st =
     st\<lparr>avg_fft_mag :=
          (avg_fft_mag st)[l := movingAvg (avg_fft_mag st ! l) (of_nat k) (fft_mag st ! l)],
        movingAvg_calls :=
          movingAvg_calls st @ [Call l (avg_fft_mag st ! l) (of_nat k) (fft_mag st ! l)]\<rparr>"

definition window_step :: "fft_fun \<Rightarrow> nat \<Rightarrow> main_state \<Rightarrow> main_state" where
  "window_step fft k st = fold (update_bin k) [3..<8] (call_fft fft (copy_window k st))"

definition averaging :: "fft_fun \<Rightarrow> main_state \<Rightarrow> main_state" where
  "averaging fft st =
     fold (\<lambda>j. fold (window_step fft) [0..<adc_length div 16]) [0..<4] st"

text \<open>Line 64: the whole array of averages is copied into the write buffer.\<close>

definition stage_record :: "main_state \<Rightarrow> main_state" where
  "stage_record st =
     st\<lparr>writebuf := memcpy (writebuf st) (concat (map float_bytes (avg_fft_mag st))) flash_len\<rparr>"

text \<open>
  Lines 41 to 71: the body of \<open>while(true)\<close> up to the point where it either returns from
  \<open>main\<close> or enters \<open>yield_for(&wdone)\<close>. The return code of
  \<open>nonvolatile_storage_internal_write\<close> is an input.
\<close>

datatype exit_point = Return "32 word" | Yield_for_wdone

definition loop_body ::
  "fft_fun \<Rightarrow> (nat \<Rightarrow> adc_result) \<Rightarrow> 32 word \<Rightarrow> main_state \<Rightarrow> exit_point \<times> main_state" where
  "loop_body fft adc ret st =
     (let st1 = sampling adc st;
          st2 = averaging fft st1;
          st3 = stage_record st2;
          st4 = st3\<lparr>wdone := False\<rparr>;
          st5 = st4\<lparr>nv_commands := nv_commands st4 @ [Nv_write 0 2000]\<rparr>
      in if ret \<noteq> 0
         then (Return ret, printf (CHR 0x09 # ''ERROR calling write\<newline>'') [] st5)
         else (Yield_for_wdone, st5))"

text \<open>Lines 8 to 13: the completion callback.\<close>

definition write_done :: "main_state \<Rightarrow> main_state" where
  "write_done st = st\<lparr>wdone := True\<rparr>"

text \<open>
  Example inputs: a transform that returns zero magnitudes, a silent input, an input
  whose first sampling call of the cycle fails with the code \<open>-1\<close>, and first contents of
  the array of averages (\<open>1.0\<close>, \<open>2.0\<close>, \<open>3.0\<close> in the bins 0 to 2, \<open>0.0\<close> elsewhere).
\<close>

definition zero_fft :: fft_fun where
  "zero_fft buf mag = (buf, replicate 8 0)"

definition silent_adc :: "nat \<Rightarrow> adc_result" where
  "silent_adc i = (0, replicate 500 0)"

definition failing_adc :: "nat \<Rightarrow> adc_result" where
  "failing_adc i = (if i = 0 then (- 1, []) else (0, replicate 500 0))"

definition example_avg :: "f32 list" where
  "example_avg = [0x3F800000, 0x40000000, 0x40400000, 0, 0, 0, 0, 0]"


definition example_state :: "f32 list \<Rightarrow> main_state" where
  "example_state avg =
     \<lparr>adc_buffer = replicate 500 0, fft_buf = replicate 16 0, fft_mag = replicate 8 0,
      avg_fft_mag = avg, writebuf = replicate 32 0, wdone = False, console = [],
      nv_commands = [], movingAvg_calls = []\<rparr>"

section \<open>The application and the storage driver\<close>

text \<open>
  \<open>yield_for\<close>, \<open>delay_ms\<close> and the nonvolatile-storage driver are not among the sources
  at hand; what they do is taken from the specification (sections 4.1, 4.5, 5 and 6).
  A write that the driver accepts (return code \<open>0\<close>) is completed later, and its
  completion callback fires exactly once; a write it rejects is not started. Callbacks
  run only while the application is inside a yielding call. \<open>yield_for(&wdone)\<close> lets the
  dispatcher run ready callbacks until \<open>wdone\<close> holds and then returns; with nothing to
  deliver it never returns. \<open>delay_ms\<close> is a yieldable sleep.

  A state of the whole system is the place \<open>main\<close> is at, its variables, and three
  counters: the writes the driver has accepted, those among them whose callback has not
  run yet, and the returns of \<open>yield_for\<close>.
\<close>

datatype location = Loop_top | In_yield_for | In_delay_ms | Returned "32 word"

record system =
  at :: location
  app :: main_state
  accepted :: nat
  pending :: nat
  observed :: nat

definition initial_system :: "main_state \<Rightarrow> system" where
  "initial_system st = \<lparr>at = Loop_top, app = st, accepted = 0, pending = 0, observed = 0\<rparr>"

text \<open>
  Modelled from the spec: the driver accepts the write that the loop body issues (return
  code \<open>0\<close>); from now on the write is pending, and \<open>main\<close> is inside \<open>yield_for\<close>.
\<close>

definition issue :: "fft_fun \<Rightarrow> (nat \<Rightarrow> adc_result) \<Rightarrow> system \<Rightarrow> system" where
  "issue fft adc s =
     s\<lparr>at := In_yield_for, app := snd (loop_body fft adc 0 (app s)),
       accepted := Suc (accepted s), pending := Suc (pending s)\<rparr>"

text \<open>
  Modelled from the spec: the driver rejects the write that the loop body issues, with
  the code \<open>ret\<close>; no write is started, and the loop body returns from \<open>main\<close>.
\<close>

definition reject :: "fft_fun \<Rightarrow> (nat \<Rightarrow> adc_result) \<Rightarrow> 32 word \<Rightarrow> system \<Rightarrow> system" where
  "reject fft adc ret s =
     s\<lparr>at := Returned ret, app := snd (loop_body fft adc ret (app s))\<rparr>"

text \<open>
  Modelled from the spec: the dispatcher delivers the completion of a pending write, that
  is, it runs the callback \<open>write_done\<close> once for that write.
\<close>

definition complete :: "system \<Rightarrow> system" where
  "complete s = s\<lparr>app := write_done (app s), pending := pending s - 1\<rparr>"

text \<open>
  Modelled from the spec: \<open>yield_for(&wdone)\<close> finds the flag set and returns; \<open>main\<close> goes
  on to \<open>delay_ms(500)\<close>.
\<close>

definition wake :: "system \<Rightarrow> system" where
  "wake s = s\<lparr>at := In_delay_ms, observed := Suc (observed s)\<rparr>"

text \<open>Modelled from the spec: \<open>delay_ms(500)\<close> returns, and the loop starts over.\<close>

definition pace :: "system \<Rightarrow> system" where
  "pace s = s\<lparr>at := Loop_top\<rparr>"

text \<open>
  Modelled from the spec: the steps of the system. The loop body is one step: the only
  yielding calls in it (sampling and printing) come before \<open>wdone = false\<close> and nothing
  before that assignment reads \<open>wdone\<close>, so a callback that runs during them has the effect
  of one that runs before the body. A callback may run at any place, as long as a write
  is pending. \<open>yield_for\<close> returns only when the flag is set.
\<close>

inductive step :: "fft_fun \<Rightarrow> system \<Rightarrow> system \<Rightarrow> bool" for fft :: fft_fun where
  step_issue: "at s = Loop_top \<Longrightarrow> step fft s (issue fft adc s)"
| step_reject: "at s = Loop_top \<Longrightarrow> ret \<noteq> 0 \<Longrightarrow> step fft s (reject fft adc ret s)"
| step_complete: "0 < pending s \<Longrightarrow> step fft s (complete s)"
| step_wake: "at s = In_yield_for \<Longrightarrow> wdone (app s) \<Longrightarrow> step fft s (wake s)"
| step_pace: "at s = In_delay_ms \<Longrightarrow> step fft s (pace s)"

text \<open>The states the system can reach from the first contents \<open>st\<close> of the variables.\<close>

inductive reachable :: "fft_fun \<Rightarrow> main_state \<Rightarrow> system \<Rightarrow> bool"
  for fft :: fft_fun and st :: main_state where
  reachable_init: "reachable fft st (initial_system (main_init ret_buffer ret_subscribe st))"
| reachable_step: "reachable fft st s \<Longrightarrow> step fft s s' \<Longrightarrow> reachable fft st s'"

text \<open>
  An example run: the first cycle up to the return of \<open>delay_ms\<close>, and on to the second
  write being in flight.
\<close>

definition first_cycle_done :: system where
  "first_cycle_done =
     pace (wake (complete (issue zero_fft silent_adc
       (initial_system (main_init 0 0 (example_state example_avg))))))"

definition second_write_in_flight :: system where
  "second_write_in_flight = issue zero_fft silent_adc first_cycle_done"

section \<open>Facts about the arithmetic\<close>

subsection \<open>Converted integers are finite\<close>

lemma bitlen_nonneg: "0 \<le> bitlen n"
  by (induction n rule: bitlen.induct) (simp add: bitlen.simps)

lemma bitlen_upper: "0 \<le> n \<Longrightarrow> n < 2 ^ nat (bitlen n)"
proof (induction n rule: bitlen.induct)
  case (1 n)
  show ?case
  proof (cases "n \<le> 0")
    case True
    with "1.prems" show ?thesis by (simp add: bitlen.simps)
  next
    case False
    then have "0 \<le> n div 2" by simp
    with "1.IH" False have ih: "n div 2 < 2 ^ nat (bitlen (n div 2))" by simp
    have "nat (1 + bitlen (n div 2)) = Suc (nat (bitlen (n div 2)))"
      using bitlen_nonneg [of "n div 2"] by simp
    moreover have "n < 2 * 2 ^ nat (bitlen (n div 2))"
      using ih by linarith
    ultimately show ?thesis
      using False by (simp add: bitlen.simps [of n])
  qed
qed

lemma bitlen_le: "n < 2 ^ k \<Longrightarrow> bitlen n \<le> int k"
proof (induction n arbitrary: k rule: bitlen.induct)
  case (1 n)
  show ?case
  proof (cases "n \<le> 0")
    case True
    then show ?thesis by (simp add: bitlen.simps)
  next
    case False
    with "1.prems" obtain j where k: "k = Suc j"
      by (cases k) simp_all
    with "1.prems" have "n div 2 < 2 ^ j" by simp
    with "1.IH" False have "bitlen (n div 2) \<le> int j" by simp
    with k False show ?thesis by (simp add: bitlen.simps [of n])
  qed
qed

lemma bitlen_pos: "0 < n \<Longrightarrow> 1 \<le> bitlen n"
  using bitlen_nonneg [of "n div 2"] by (simp add: bitlen.simps [of n])

lemma bitlen_1: "bitlen 1 = 1"
  by code_simp

lemma rne_bounds:
  assumes "0 \<le> n" and "0 < d"
  shows "0 \<le> rne n d" and "rne n d \<le> n div d + 1"
proof -
  have "0 \<le> n div d" using assms by (simp add: pos_imp_zdiv_nonneg_iff)
  then show "0 \<le> rne n d" "rne n d \<le> n div d + 1"
    by (simp_all add: rne_def Let_def)
qed

lemma int_div_less:
  fixes n d k :: int
  assumes "0 < d" and "n < k * d"
  shows "n div d < k"
proof (rule ccontr)
  assume "\<not> n div d < k"
  then have "k * d \<le> (n div d) * d"
    using assms(1) by (simp add: mult_right_mono)
  also have "\<dots> \<le> n"
  proof -
    have "d * (n div d) + n mod d = n" by (rule mult_div_mod_eq)
    moreover have "0 \<le> n mod d" using assms(1) by simp
    ultimately have "d * (n div d) \<le> n" by linarith
    then show ?thesis by (simp only: mult.commute)
  qed
  finally show False using assms(2) by simp
qed

text \<open>The magnitude pattern of a converted integer is that of a finite value.\<close>

lemma round_mag_int_bounds:
  assumes "0 \<le> n" and "n \<le> 2 ^ 31"
  shows "0 \<le> round_mag n 1 0 \<and> round_mag n 1 0 \<le> 159 * 2 ^ 23"
proof (cases "n = 0")
  case True
  then show ?thesis by (simp add: round_mag_def)
next
  case False
  with assms(1) have pos: "0 < n" by simp
  define E where "E = ilog2 n 1"
  define c where "c = bitlen n - 1"
  have c0: "0 \<le> c" using bitlen_pos [OF pos] by (simp add: c_def)
  have "n < 2 ^ 32" using assms(2) by simp
  then have c31: "c \<le> 31" using bitlen_le [of n 32] by (simp add: c_def)
  have E_def': "E = (if 2 ^ nat c \<le> n then c else c - 1)"
    using c0 by (simp add: E_def ilog2_def Let_def bitlen_1 c_def)
  have upper: "n < 2 ^ nat (E + 1)"
  proof (cases "2 ^ nat c \<le> n")
    case True
    then have "E = c" by (simp add: E_def')
    moreover have "nat (c + 1) = nat (bitlen n)" by (simp add: c_def)
    ultimately show ?thesis using bitlen_upper [OF assms(1)] by simp
  next
    case False
    then have "E = c - 1" by (simp add: E_def')
    with False show ?thesis by simp
  qed
  have E_lo: "- 1 \<le> E" and E_hi: "E \<le> 31"
    using c0 c31 by (simp_all add: E_def')
  define qe where "qe = E - 23"
  define m where "m = (if 0 \<le> qe then rne n (1 * 2 ^ nat qe) else rne (n * 2 ^ nat (- qe)) 1)"
  have rm: "round_mag n 1 0 = min ((qe + 149) * 2 ^ 23 + m) 0x7F800000"
    using False E_lo by (simp add: round_mag_def Let_def E_def [symmetric] qe_def m_def max_def)
  have m0: "0 \<le> m"
    using assms(1) by (simp add: m_def rne_bounds)
  have m24: "m \<le> 2 ^ 24"
  proof (cases "0 \<le> qe")
    case True
    have "nat (E + 1) = 24 + nat qe" using True by (simp add: qe_def)
    with upper have "n < 2 ^ 24 * 2 ^ nat qe" by (simp add: power_add)
    then have "n div 2 ^ nat qe < 2 ^ 24"
      by (intro int_div_less) simp_all
    moreover have "rne n (2 ^ nat qe) \<le> n div 2 ^ nat qe + 1"
      using assms(1) by (intro rne_bounds) simp_all
    ultimately show ?thesis using True by (simp add: m_def)
  next
    case False
    have "rne (n * 2 ^ nat (- qe)) 1 = n * 2 ^ nat (- qe)"
      by (simp add: rne_def Let_def)
    moreover have "n * 2 ^ nat (- qe) < 2 ^ nat (E + 1) * 2 ^ nat (- qe)"
      using upper by simp
    moreover have "nat (E + 1) + nat (- qe) = 24"
      using False E_lo by (simp add: qe_def)
    then have "(2::int) ^ nat (E + 1) * 2 ^ nat (- qe) = 2 ^ 24"
      by (metis power_add)
    ultimately show ?thesis using False by (simp add: m_def)
  qed
  have "(qe + 149) * 2 ^ 23 \<le> 157 * (2 ^ 23 :: int)"
    using E_hi by (simp add: qe_def)
  moreover have "0 \<le> (qe + 149) * (2 ^ 23 :: int)"
    using E_lo by (simp add: qe_def)
  ultimately show ?thesis using m0 m24 by (simp add: rm)
qed

lemma float_of_int_finite: "\<exists>s m e. decode (float_of_int i) = FFin s m e"
proof -
  define r where "r = round_mag \<bar>sint i\<bar> 1 0"
  define sw where "sw = sign_weight (sint i < 0)"
  have "- (2 ^ 31) \<le> sint i" "sint i < 2 ^ 31"
    using sint_ge [of i] sint_lt [of i] by simp_all
  then have "0 \<le> \<bar>sint i\<bar>" "\<bar>sint i\<bar> \<le> 2 ^ 31" by simp_all
  from round_mag_int_bounds [OF this] have r: "0 \<le> r" "r \<le> 159 * 2 ^ 23"
    by (simp_all add: r_def)
  have sw: "sw = 0 \<or> sw = 256 * 2 ^ 23"
    by (simp add: sw_def sign_weight_def)
  let ?u = "uint (float_of_int i)"
  have u: "?u = sw + r"
  proof -
    have "0 \<le> sw + r" "sw + r < 2 ^ 32" using sw r by auto
    then have "(sw + r) mod 2 ^ 32 = sw + r" by simp
    moreover have "uint (word_of_int (sw + r) :: 32 word) = (sw + r) mod 2 ^ 32"
      by (subst uint_word_of_int_eq) (simp add: take_bit_eq_mod)
    ultimately have "uint (word_of_int (sw + r) :: 32 word) = sw + r" by simp
    then show ?thesis
      by (simp only: float_of_int_def round_f32_def r_def sw_def)
  qed
  have r23: "0 \<le> r div 2 ^ 23" "r div 2 ^ 23 \<le> 159"
    using r by (simp_all add: pos_imp_zdiv_nonneg_iff zdiv_mono1 [of r "159 * 2 ^ 23" "2 ^ 23", simplified])
  have "(sw + r) div 2 ^ 23 = r div 2 ^ 23 \<or> (sw + r) div 2 ^ 23 = 256 + r div 2 ^ 23"
    using sw by auto
  then have "((sw + r) div 2 ^ 23) mod 256 = r div 2 ^ 23"
    using r23 by auto
  with r23 have e: "(?u div 2 ^ 23) mod 256 \<noteq> 255"
    by (simp add: u)
  show ?thesis
    using e by (simp add: decode_def Let_def)
qed

subsection \<open>NaN operands\<close>

lemma quiet_uint:
  "uint (quiet w) = 2 ^ 23 * (uint w div 2 ^ 23) + 2 ^ 22 + uint w mod 2 ^ 22"
proof -
  let ?u = "uint w"
  let ?k = "2 ^ 23 * (?u div 2 ^ 23) + 2 ^ 22 + ?u mod 2 ^ 22"
  have "?u < 2 ^ 32" using uint_lt2p [of w] by simp
  then have "?u div 2 ^ 23 < 512" by simp
  then have q: "?u div 2 ^ 23 \<le> 511" by simp
  have q0: "0 \<le> ?u div 2 ^ 23" by (simp add: pos_imp_zdiv_nonneg_iff)
  have r: "0 \<le> ?u mod 2 ^ 22" "?u mod 2 ^ 22 < 2 ^ 22" by simp_all
  have "0 \<le> ?k" using q0 r by simp
  moreover have "?k < 2 ^ 32" using q r by simp
  ultimately have "?k mod 2 ^ 32 = ?k" by simp
  moreover have "uint (word_of_int ?k :: 32 word) = ?k mod 2 ^ 32"
    by (subst uint_word_of_int_eq) (simp add: take_bit_eq_mod)
  ultimately show ?thesis by (simp only: quiet_def)
qed

lemma quiet_fields:
  "uint (quiet w) div 2 ^ 23 = uint w div 2 ^ 23"
  "uint (quiet w) mod 2 ^ 23 = 2 ^ 22 + uint w mod 2 ^ 22"
  "uint (quiet w) mod 2 ^ 22 = uint w mod 2 ^ 22"
proof -
  let ?q = "uint w div 2 ^ 23"
  let ?r = "uint w mod 2 ^ 22"
  have r: "0 \<le> ?r" "?r < 2 ^ 22" by simp_all
  have u: "uint (quiet w) = 2 ^ 23 * ?q + (2 ^ 22 + ?r)"
    by (simp add: quiet_uint)
  have s: "0 \<le> 2 ^ 22 + ?r" "2 ^ 22 + ?r < 2 ^ 23" using r by simp_all
  show "uint (quiet w) div 2 ^ 23 = ?q"
    unfolding u using s by (simp add: div_pos_pos_trivial)
  show "uint (quiet w) mod 2 ^ 23 = 2 ^ 22 + ?r"
    unfolding u using s by (simp add: mod_pos_pos_trivial)
  have "uint (quiet w) = 2 ^ 22 * (2 * ?q + 1) + ?r"
    by (simp add: u)
  then show "uint (quiet w) mod 2 ^ 22 = ?r"
    by (simp only: mod_mult_self4 mod_mod_trivial)
qed


lemma decode_quiet: "decode w = FNaN \<Longrightarrow> decode (quiet w) = FNaN"
proof -
  assume n: "decode w = FNaN"
  have e: "(uint w div 2 ^ 23) mod 256 = 255"
    using n by (simp add: decode_def Let_def split: if_splits)
  have "0 \<le> uint w mod 2 ^ 22" by simp
  then have "0 < 2 ^ 22 + uint w mod 2 ^ 22" by (simp add: add_pos_nonneg)
  then have "2 ^ 22 + uint w mod 2 ^ 22 \<noteq> 0" by simp
  then have qf: "uint (quiet w) mod 2 ^ 23 \<noteq> 0" by (simp only: quiet_fields not_False_eq_True)
  have qe: "(uint (quiet w) div 2 ^ 23) mod 256 = 255" using e by (simp only: quiet_fields)
  from qe qf show ?thesis by (simp add: decode_def Let_def)
qed

lemma decode_qnan: "decode qnan = FNaN"
  by code_simp

lemma decode_infinity_pos: "decode (infinity False) = FInf False"
  by code_simp

lemma decode_infinity_neg: "decode (infinity True) = FInf True"
  by code_simp

lemma decode_infinity: "decode (infinity s) = FInf s"
  by (cases s) (simp_all add: decode_infinity_pos decode_infinity_neg)

lemma decode_float_0: "decode (float_of_int 0) = FFin False 0 (- 149)"
  by code_simp

lemma decode_float_1: "decode (float_of_int 1) = FFin False (2 ^ 23) (- 23)"
  by code_simp

lemma float_of_int_not_nan: "decode (float_of_int v) \<noteq> FNaN"
  using float_of_int_finite [of v] by auto

lemma nan_not_value: "decode x = FNaN \<Longrightarrow> x \<noteq> float_of_int v"
  using float_of_int_not_nan [of v] by auto

lemma fadd_nan_left: "decode a = FNaN \<Longrightarrow> fadd a b = quiet a"
  by (simp add: fadd_def)

lemma fdiv_nan_left: "decode a = FNaN \<Longrightarrow> fdiv a b = quiet a"
  by (simp add: fdiv_def)

lemma fsub_nan_right: "decode a \<noteq> FNaN \<Longrightarrow> decode b = FNaN \<Longrightarrow> fsub a b = quiet b"
  by (cases "decode a") (simp_all add: fsub_def)

lemma fadd_nan_right: "decode a \<noteq> FNaN \<Longrightarrow> decode b = FNaN \<Longrightarrow> fadd a b = quiet b"
  by (cases "decode a") (simp_all add: fadd_def)

text \<open>
  A NaN prior average is what \<open>movingAvg\<close> returns, made quiet, whatever the count and the
  new value.
\<close>

lemma movingAvg_nan: "decode a = FNaN \<Longrightarrow> movingAvg a k v = quiet a"
  by (simp add: movingAvg_def fadd_nan_left)

lemma movingAvg_nan_is_nan: "decode a = FNaN \<Longrightarrow> decode (movingAvg a k v) = FNaN"
  by (simp add: movingAvg_nan decode_quiet)

subsection \<open>Division by a zero count\<close>

text \<open>Dividing by the converted count \<open>0\<close> never gives a finite value.\<close>

lemma fdiv_by_float_0:
  "decode (fdiv x (float_of_int 0)) = FNaN \<or> (\<exists>s. fdiv x (float_of_int 0) = infinity s)"
proof (cases "decode x")
  case FNaN
  then show ?thesis by (simp add: fdiv_nan_left decode_quiet)
next
  case (FInf s)
  then show ?thesis by (auto simp add: fdiv_def decode_float_0)
next
  case (FFin s m e)
  then show ?thesis by (auto simp add: fdiv_def decode_float_0 decode_qnan)
qed

lemma fadd_infinity_right:
  "decode (fadd a (infinity s)) = FNaN \<or> fadd a (infinity s) = infinity s"
proof (cases "decode a")
  case FNaN
  then show ?thesis by (simp add: fadd_nan_left decode_quiet)
next
  case (FInf t)
  then show ?thesis by (simp add: fadd_def decode_infinity decode_qnan)
next
  case (FFin t m e)
  then show ?thesis by (simp add: fadd_def decode_infinity)
qed

lemma movingAvg_0_cases:
  "decode (movingAvg a 0 v) = FNaN \<or> (\<exists>s. movingAvg a 0 v = infinity s)"
proof (cases "decode a = FNaN")
  case True
  then show ?thesis by (simp add: movingAvg_nan_is_nan)
next
  case False
  let ?d = "fdiv (fsub (float_of_int v) a) (float_of_int 0)"
  from fdiv_by_float_0 [of "fsub (float_of_int v) a"] show ?thesis
  proof
    assume "decode ?d = FNaN"
    with False have "fadd a ?d = quiet ?d" by (rule fadd_nan_right)
    with \<open>decode ?d = FNaN\<close> show ?thesis by (simp add: movingAvg_def decode_quiet)
  next
    assume "\<exists>s. ?d = infinity s"
    then obtain s where "?d = infinity s" ..
    with fadd_infinity_right [of a s] show ?thesis by (auto simp add: movingAvg_def)
  qed
qed

text \<open>An infinite average becomes a NaN at the next update with count \<open>1\<close>.\<close>

lemma movingAvg_infinity_1: "decode (movingAvg (infinity s) 1 v) = FNaN"
proof -
  from float_of_int_finite [of v]
  obtain t m e where f: "decode (float_of_int v) = FFin t m e" by blast
  have "fsub (float_of_int v) (infinity s) = infinity (\<not> s)"
    by (simp add: fsub_def f decode_infinity)
  then have "fdiv (fsub (float_of_int v) (infinity s)) (float_of_int 1) = infinity (\<not> s)"
    by (simp add: fdiv_def decode_infinity decode_float_1)
  then have "movingAvg (infinity s) 1 v = qnan"
    by (simp add: movingAvg_def fadd_def decode_infinity)
  then show ?thesis by (simp add: decode_qnan)
qed

lemma movingAvg_0_then_1: "decode (movingAvg (movingAvg a 0 v) 1 w) = FNaN"
  using movingAvg_0_cases [of a v]
  by (auto simp add: movingAvg_nan_is_nan movingAvg_infinity_1)

lemma constant_updates_Suc:
  "constant_updates a v (Suc n) = movingAvg (constant_updates a v n) (of_nat n) v"
  by (simp add: constant_updates_def)

lemma constant_updates_from_2: "decode (constant_updates a v (Suc (Suc n))) = FNaN"
proof (induction n)
  case 0
  have "constant_updates a v (Suc (Suc 0)) = movingAvg (movingAvg a 0 v) 1 v"
    by (simp add: constant_updates_def)
  then show ?case by (simp add: movingAvg_0_then_1)
next
  case (Suc n)
  show ?case
    using Suc.IH constant_updates_Suc [of a v "Suc (Suc n)"]
    by (simp add: movingAvg_nan_is_nan)
qed

text \<open>Neither a NaN nor an infinity is the conversion of an integer.\<close>

lemma movingAvg_0_not_value: "movingAvg a 0 v \<noteq> float_of_int v"
proof
  assume eq: "movingAvg a 0 v = float_of_int v"
  from float_of_int_finite [of v] obtain s m e where "decode (float_of_int v) = FFin s m e"
    by blast
  with eq have "decode (movingAvg a 0 v) = FFin s m e" by simp
  with movingAvg_0_cases [of a v] show False
    by (auto simp add: decode_infinity)
qed

section \<open>Properties of the bin averager\<close>

text \<open>
  C1. The claim: for every prior average \<open>a\<close>, new value \<open>v\<close> and observation index
  \<open>n \<ge> 0\<close>, the update returns \<open>a + (v - a) / (n + 1)\<close>. The program passes the window
  counter itself as \<open>num_samples\<close>, and \<open>movingAvg\<close> divides by it as it is. At the prior
  average \<open>1.0\<close> (pattern \<open>0x3F800000\<close>), index \<open>0\<close> and new value \<open>3\<close>, \<open>movingAvg\<close>
  returns \<open>+infinity\<close> (pattern \<open>0x7F800000\<close>) where the formula of the claim gives \<open>3.0\<close>
  (pattern \<open>0x40400000\<close>); at the prior average \<open>0.0\<close>, index \<open>1\<close> and new value \<open>2\<close> it
  returns \<open>2.0\<close> (pattern \<open>0x40000000\<close>) where the formula gives \<open>1.0\<close> (pattern
  \<open>0x3F800000\<close>). The formula of the claim is \<open>movingAvg\<close> called with the index plus one.
\<close>

theorem movingAvg_divides_by_index:
  "movingAvg 0x3F800000 0 3 = 0x7F800000 \<and> spec_update 0x3F800000 0 3 = 0x40400000 \<and>
   movingAvg 0 1 2 = 0x40000000 \<and> spec_update 0 1 2 = 0x3F800000 \<and>
   spec_update a n v = movingAvg a (n + 1) v"
proof -
  have "movingAvg 0x3F800000 0 3 = 0x7F800000"
    by code_simp
  moreover have "spec_update 0x3F800000 0 3 = 0x40400000"
    by code_simp
  moreover have "movingAvg 0 1 2 = 0x40000000"
    by code_simp
  moreover have "spec_update 0 1 2 = 0x3F800000"
    by code_simp
  moreover have "spec_update a n v = movingAvg a (n + 1) v"
    by (simp add: spec_update_def movingAvg_def)
  ultimately show ?thesis by simp
qed

text \<open>
  C2. The claim: the update with observation index \<open>0\<close> returns exactly the new value,
  whatever the prior average. In the program the index \<open>0\<close> is the divisor: for every
  prior average and every new value the result is a NaN or an infinity, never the new
  value; at the prior average \<open>0.0\<close> and new value \<open>2\<close> it is \<open>+infinity\<close> (pattern
  \<open>0x7F800000\<close>) while the new value converts to \<open>2.0\<close> (pattern \<open>0x40000000\<close>).
\<close>

theorem movingAvg_first_observation:
  "movingAvg a 0 v \<noteq> float_of_int v \<and>
   (decode (movingAvg a 0 v) = FNaN \<or> decode (movingAvg a 0 v) = FInf False \<or>
    decode (movingAvg a 0 v) = FInf True) \<and>
   movingAvg 0 0 2 = 0x7F800000 \<and> float_of_int 2 = 0x40000000"
proof -
  have "decode (movingAvg a 0 v) = FNaN \<or> decode (movingAvg a 0 v) = FInf False \<or>
      decode (movingAvg a 0 v) = FInf True"
    using movingAvg_0_cases [of a v] by (auto simp add: decode_infinity)
  moreover have "movingAvg 0 0 2 = 0x7F800000"
    by code_simp
  moreover have "float_of_int 2 = 0x40000000"
    by code_simp
  ultimately show ?thesis using movingAvg_0_not_value [of a v] by simp
qed

text \<open>
  C8. The claim: after \<open>n \<ge> 1\<close> updates with the same new value \<open>v\<close> at the indices
  \<open>0, ..., n - 1\<close> the average is exactly \<open>v\<close>. In the program the first of these updates
  divides by zero and the second subtracts infinities: the average is never \<open>v\<close>, and
  from the second update on it is a NaN, for every starting average and every \<open>v\<close>.
\<close>

theorem constant_updates_never_value:
  "1 \<le> n \<Longrightarrow>
     constant_updates a v n \<noteq> float_of_int v \<and>
     (2 \<le> n \<longrightarrow> decode (constant_updates a v n) = FNaN)"
proof -
  assume "1 \<le> n"
  then obtain m where n: "n = Suc m" by (cases n) simp_all
  show ?thesis
  proof (cases m)
    case 0
    with n have "constant_updates a v n = movingAvg a 0 v"
      by (simp add: constant_updates_def)
    with n 0 show ?thesis by (simp add: movingAvg_0_not_value)
  next
    case (Suc k)
    with n have "decode (constant_updates a v n) = FNaN"
      by (simp add: constant_updates_from_2)
    then show ?thesis by (simp add: nan_not_value)
  qed
qed

theorem constant_updates_never_value_witness:
  "(1::nat) \<le> 2 \<and> constant_updates 0 2 2 \<noteq> float_of_int 2 \<and>
   decode (constant_updates 0 2 2) = FNaN \<and> float_of_int 2 = 0x40000000"
proof -
  have h: "(1::nat) \<le> 2" by simp
  have c: "constant_updates 0 2 2 \<noteq> float_of_int 2 \<and>
      ((2::nat) \<le> 2 \<longrightarrow> decode (constant_updates 0 2 2) = FNaN)"
    by (rule constant_updates_never_value [OF h])
  from c have c1: "constant_updates 0 2 2 \<noteq> float_of_int 2" by (rule conjunct1)
  from c have c2: "decode (constant_updates 0 2 2) = FNaN" by simp
  have f: "float_of_int 2 = 0x40000000"
    by code_simp
  from h c1 c2 f show ?thesis by (intro conjI)
qed

section \<open>Facts about the loop body\<close>

lemma fold_preserves:
  assumes "\<And>x s. x \<in> set xs \<Longrightarrow> P s \<Longrightarrow> P (g x s)" and "P s"
  shows "P (fold g xs s)"
  using assms by (induction xs arbitrary: s) simp_all

lemma length_overwrite [simp]: "length (overwrite new old) = length old"
  by (simp add: overwrite_def)


lemma windows: "adc_length div 16 = 31"
  by (simp add: adc_length_def)

subsection \<open>What each part of the loop body leaves alone\<close>

lemma sampling_frame_conj:
  "fft_buf (sampling adc st) = fft_buf st \<and> fft_mag (sampling adc st) = fft_mag st \<and>
   avg_fft_mag (sampling adc st) = avg_fft_mag st \<and> writebuf (sampling adc st) = writebuf st \<and>
   wdone (sampling adc st) = wdone st \<and> nv_commands (sampling adc st) = nv_commands st \<and>
   movingAvg_calls (sampling adc st) = movingAvg_calls st"
  unfolding sampling_def
  by (rule fold_preserves
        [where P = "\<lambda>s. fft_buf s = fft_buf st \<and> fft_mag s = fft_mag st \<and>
           avg_fft_mag s = avg_fft_mag st \<and> writebuf s = writebuf st \<and>
           wdone s = wdone st \<and> nv_commands s = nv_commands st \<and>
           movingAvg_calls s = movingAvg_calls st"])
     (simp_all add: sample_once_def printf_def Let_def)

lemmas sampling_frame =
  sampling_frame_conj [THEN conjunct1]
  sampling_frame_conj [THEN conjunct2, THEN conjunct1]
  sampling_frame_conj [THEN conjunct2, THEN conjunct2, THEN conjunct1]
  sampling_frame_conj [THEN conjunct2, THEN conjunct2, THEN conjunct2, THEN conjunct1]
  sampling_frame_conj [THEN conjunct2, THEN conjunct2, THEN conjunct2, THEN conjunct2, THEN conjunct1]
  sampling_frame_conj [THEN conjunct2, THEN conjunct2, THEN conjunct2, THEN conjunct2, THEN conjunct2,
    THEN conjunct1]
  sampling_frame_conj [THEN conjunct2, THEN conjunct2, THEN conjunct2, THEN conjunct2, THEN conjunct2,
    THEN conjunct2]

lemma copy_window_frame_conj:
  "adc_buffer (copy_window k st) = adc_buffer st \<and> fft_mag (copy_window k st) = fft_mag st \<and>
   avg_fft_mag (copy_window k st) = avg_fft_mag st \<and> writebuf (copy_window k st) = writebuf st \<and>
   wdone (copy_window k st) = wdone st \<and> console (copy_window k st) = console st \<and>
   nv_commands (copy_window k st) = nv_commands st \<and>
   movingAvg_calls (copy_window k st) = movingAvg_calls st"
  unfolding copy_window_def
  by (rule fold_preserves
        [where P = "\<lambda>s. adc_buffer s = adc_buffer st \<and> fft_mag s = fft_mag st \<and>
           avg_fft_mag s = avg_fft_mag st \<and> writebuf s = writebuf st \<and>
           wdone s = wdone st \<and> console s = console st \<and> nv_commands s = nv_commands st \<and>
           movingAvg_calls s = movingAvg_calls st"])
     simp_all

lemma copy_window_frame:
  "avg_fft_mag (copy_window k st) = avg_fft_mag st"
  "fft_mag (copy_window k st) = fft_mag st"
  "movingAvg_calls (copy_window k st) = movingAvg_calls st"
  using copy_window_frame_conj [of k st] by simp_all

lemma call_fft_frame:
  "avg_fft_mag (call_fft fft st) = avg_fft_mag st"
  "movingAvg_calls (call_fft fft st) = movingAvg_calls st"
  "length (fft_mag (call_fft fft st)) = length (fft_mag st)"
  by (simp_all add: call_fft_def Let_def)

lemma window_step_frame_conj:
  "adc_buffer (window_step fft k st) = adc_buffer st \<and>
   writebuf (window_step fft k st) = writebuf st \<and> wdone (window_step fft k st) = wdone st \<and>
   console (window_step fft k st) = console st \<and>
   nv_commands (window_step fft k st) = nv_commands st"
  unfolding window_step_def
  by (rule fold_preserves
        [where P = "\<lambda>s. adc_buffer s = adc_buffer st \<and> writebuf s = writebuf st \<and>
           wdone s = wdone st \<and> console s = console st \<and> nv_commands s = nv_commands st"])
     (simp_all add: update_bin_def call_fft_def Let_def copy_window_frame_conj)

lemma averaging_frame_conj:
  "adc_buffer (averaging fft st) = adc_buffer st \<and>
   writebuf (averaging fft st) = writebuf st \<and> wdone (averaging fft st) = wdone st \<and>
   console (averaging fft st) = console st \<and>
   nv_commands (averaging fft st) = nv_commands st"
  unfolding averaging_def
  by (rule fold_preserves
        [where P = "\<lambda>s. adc_buffer s = adc_buffer st \<and> writebuf s = writebuf st \<and>
           wdone s = wdone st \<and> console s = console st \<and> nv_commands s = nv_commands st"],
      rule fold_preserves
        [where P = "\<lambda>s. adc_buffer s = adc_buffer st \<and> writebuf s = writebuf st \<and>
           wdone s = wdone st \<and> console s = console st \<and> nv_commands s = nv_commands st"])
     (simp_all add: window_step_frame_conj)

lemma averaging_frame:
  "adc_buffer (averaging fft st) = adc_buffer st"
  "writebuf (averaging fft st) = writebuf st"
  "wdone (averaging fft st) = wdone st"
  "console (averaging fft st) = console st"
  "nv_commands (averaging fft st) = nv_commands st"
  using averaging_frame_conj [of fft st] by simp_all

subsection \<open>The averages\<close>

lemma update_bin_other:
  "i \<noteq> l \<Longrightarrow> avg_fft_mag (update_bin k l st) ! i = avg_fft_mag st ! i"
  by (simp add: update_bin_def)

lemma update_bin_length: "length (avg_fft_mag (update_bin k l st)) = length (avg_fft_mag st)"
  by (simp add: update_bin_def)

lemma window_step_untracked:
  assumes "i \<notin> {3..<8}"
  shows "avg_fft_mag (window_step fft k st) ! i = avg_fft_mag st ! i"
proof -
  let ?s0 = "call_fft fft (copy_window k st)"
  have s0: "avg_fft_mag ?s0 ! i = avg_fft_mag st ! i"
    by (simp add: call_fft_frame copy_window_frame)
  have "avg_fft_mag (fold (update_bin k) [3..<8] ?s0) ! i = avg_fft_mag st ! i"
  proof (rule fold_preserves [where P = "\<lambda>s. avg_fft_mag s ! i = avg_fft_mag st ! i"])
    fix l and s :: main_state
    assume "l \<in> set [3..<8]" and "avg_fft_mag s ! i = avg_fft_mag st ! i"
    with assms show "avg_fft_mag (update_bin k l s) ! i = avg_fft_mag st ! i"
      by (auto simp add: update_bin_other)
  qed (rule s0)
  then show ?thesis by (simp add: window_step_def)
qed

lemma window_step_length:
  "length (avg_fft_mag (window_step fft k st)) = length (avg_fft_mag st)"
  unfolding window_step_def
  by (rule fold_preserves [where P = "\<lambda>s. length (avg_fft_mag s) = length (avg_fft_mag st)"])
     (simp_all add: update_bin_length call_fft_frame copy_window_frame)

lemma averaging_untracked:
  assumes "i \<notin> {3..<8}"
  shows "avg_fft_mag (averaging fft st) ! i = avg_fft_mag st ! i"
  unfolding averaging_def
  by (rule fold_preserves [where P = "\<lambda>s. avg_fft_mag s ! i = avg_fft_mag st ! i"],
      rule fold_preserves [where P = "\<lambda>s. avg_fft_mag s ! i = avg_fft_mag st ! i"])
     (simp_all add: window_step_untracked [OF assms])

lemma averaging_length: "length (avg_fft_mag (averaging fft st)) = length (avg_fft_mag st)"
  unfolding averaging_def
  by (rule fold_preserves [where P = "\<lambda>s. length (avg_fft_mag s) = length (avg_fft_mag st)"],
      rule fold_preserves [where P = "\<lambda>s. length (avg_fft_mag s) = length (avg_fft_mag st)"])
     (simp_all add: window_step_length)

lemma loop_body_avg:
  "avg_fft_mag (snd (loop_body fft adc ret st)) = avg_fft_mag (averaging fft (sampling adc st))"
  by (simp add: loop_body_def Let_def stage_record_def printf_def)

lemma loop_body_untracked:
  "i \<notin> {3..<8} \<Longrightarrow> avg_fft_mag (snd (loop_body fft adc ret st)) ! i = avg_fft_mag st ! i"
  by (simp add: loop_body_avg averaging_untracked sampling_frame)

subsection \<open>The calls of movingAvg\<close>

lemma update_bin_calls:
  "movingAvg_calls (update_bin k l st) =
     movingAvg_calls st @ [Call l (avg_fft_mag st ! l) (of_nat k) (fft_mag st ! l)]"
  by (simp add: update_bin_def)

lemma fold_update_bin_calls:
  "map (\<lambda>c. (call_bin c, call_num_samples c)) (movingAvg_calls (fold (update_bin k) ls st)) =
     map (\<lambda>c. (call_bin c, call_num_samples c)) (movingAvg_calls st) @ map (\<lambda>l. (l, of_nat k)) ls"
  by (induction ls arbitrary: st) (simp_all add: update_bin_calls)

lemma window_step_calls:
  "map (\<lambda>c. (call_bin c, call_num_samples c)) (movingAvg_calls (window_step fft k st)) =
     map (\<lambda>c. (call_bin c, call_num_samples c)) (movingAvg_calls st) @
     map (\<lambda>l. (l, of_nat k)) [3..<8]"
  by (simp only: window_step_def fold_update_bin_calls call_fft_frame copy_window_frame)

lemma pass_calls:
  "map (\<lambda>c. (call_bin c, call_num_samples c)) (movingAvg_calls (fold (window_step fft) ks st)) =
     map (\<lambda>c. (call_bin c, call_num_samples c)) (movingAvg_calls st) @
     concat (map (\<lambda>k. map (\<lambda>l. (l, of_nat k)) [3..<8]) ks)"
  by (induction ks arbitrary: st) (simp_all add: window_step_calls)

lemma passes_calls:
  "map (\<lambda>c. (call_bin c, call_num_samples c))
     (movingAvg_calls (fold (\<lambda>j. fold (window_step fft) ks) js st)) =
     map (\<lambda>c. (call_bin c, call_num_samples c)) (movingAvg_calls st) @
     concat (map (\<lambda>j. concat (map (\<lambda>k. map (\<lambda>l. (l, of_nat k)) [3..<8]) ks)) js)"
  by (induction js arbitrary: st) (simp_all add: pass_calls)

lemma averaging_calls:
  "map (\<lambda>c. (call_bin c, call_num_samples c)) (movingAvg_calls (averaging fft st)) =
     map (\<lambda>c. (call_bin c, call_num_samples c)) (movingAvg_calls st) @
     concat (map (\<lambda>j. concat (map (\<lambda>k. map (\<lambda>l. (l, of_nat k)) [3..<8]) [0..<31])) [0..<4])"
  by (simp only: averaging_def windows passes_calls)

lemma loop_body_calls:
  "movingAvg_calls (snd (loop_body fft adc ret st)) = movingAvg_calls (averaging fft (sampling adc st))"
  by (simp add: loop_body_def Let_def stage_record_def printf_def)

subsection \<open>The record\<close>

lemma length_float_bytes: "length (float_bytes w) = 4"
  by (simp add: float_bytes_def)

lemma length_concat_float_bytes: "length (concat (map float_bytes xs)) = 4 * length xs"
  by (induction xs) (simp_all add: length_float_bytes)

lemma chunk_concat_float_bytes:
  "i < length xs \<Longrightarrow> take 4 (drop (4 * i) (concat (map float_bytes xs))) = float_bytes (xs ! i)"
proof (induction xs arbitrary: i)
  case Nil
  then show ?case by simp
next
  case (Cons x xs)
  show ?case
  proof (cases i)
    case 0
    then show ?thesis by (simp add: length_float_bytes)
  next
    case (Suc j)
    with Cons.prems have "j < length xs" by simp
    from Cons.IH [OF this] Suc show ?thesis
      by (simp add: length_float_bytes)
  qed
qed

lemma float_bytes_inject: "float_bytes a = float_bytes b \<Longrightarrow> a = b"
proof -
  assume eq: "float_bytes a = float_bytes b"
  then have b0: "(ucast a :: 8 word) = ucast b"
    and b1: "(ucast (drop_bit 8 a) :: 8 word) = ucast (drop_bit 8 b)"
    and b2: "(ucast (drop_bit 16 a) :: 8 word) = ucast (drop_bit 16 b)"
    and b3: "(ucast (drop_bit 24 a) :: 8 word) = ucast (drop_bit 24 b)"
    by (simp_all add: float_bytes_def)
  show "a = b"
  proof (rule bit_word_eqI)
    fix n
    assume n: "n < LENGTH(32)"
    consider "n < 8" | "8 \<le> n" "n < 16" | "16 \<le> n" "n < 24" | "24 \<le> n" "n < 32"
      using n by fastforce
    then show "bit a n = bit b n"
    proof cases
      case 1
      from b0 have "bit (ucast a :: 8 word) n = bit (ucast b :: 8 word) n" by simp
      with 1 show ?thesis by (simp add: bit_ucast_iff)
    next
      case 2
      from b1 have "bit (ucast (drop_bit 8 a) :: 8 word) (n - 8) = bit (ucast (drop_bit 8 b) :: 8 word) (n - 8)"
        by simp
      with 2 show ?thesis by (auto simp add: bit_ucast_iff bit_drop_bit_eq)
    next
      case 3
      from b2 have "bit (ucast (drop_bit 16 a) :: 8 word) (n - 16) = bit (ucast (drop_bit 16 b) :: 8 word) (n - 16)"
        by simp
      with 3 show ?thesis by (auto simp add: bit_ucast_iff bit_drop_bit_eq)
    next
      case 4
      from b3 have "bit (ucast (drop_bit 24 a) :: 8 word) (n - 24) = bit (ucast (drop_bit 24 b) :: 8 word) (n - 24)"
        by simp
      with 4 show ?thesis by (auto simp add: bit_ucast_iff bit_drop_bit_eq)
    qed
  qed
qed

lemma loop_body_writebuf:
  "writebuf (snd (loop_body fft adc ret st)) =
     memcpy (writebuf st) (concat (map float_bytes (avg_fft_mag (snd (loop_body fft adc ret st)))))
       flash_len"
  by (simp add: loop_body_def Let_def stage_record_def printf_def averaging_frame sampling_frame)

lemma loop_body_length_avg:
  "length (avg_fft_mag (snd (loop_body fft adc ret st))) = length (avg_fft_mag st)"
  by (simp add: loop_body_avg averaging_length sampling_frame)

lemma loop_body_record:
  assumes "length (avg_fft_mag st) = 8" and "length (writebuf st) = flash_len"
  shows "writebuf (snd (loop_body fft adc ret st)) =
           concat (map float_bytes (avg_fft_mag (snd (loop_body fft adc ret st))))"
  using assms
  by (simp add: loop_body_writebuf memcpy_def length_concat_float_bytes loop_body_length_avg
        flash_len_def sizeof_float_def)

subsection \<open>What is printed and what is asked of the driver\<close>

lemma loop_body_exit: "fst (loop_body fft adc ret st) = (if ret = 0 then Yield_for_wdone else Return ret)"
  by (simp add: loop_body_def Let_def)

lemma loop_body_nv_commands:
  "nv_commands (snd (loop_body fft adc ret st)) = nv_commands st @ [Nv_write 0 2000]"
  by (simp add: loop_body_def Let_def stage_record_def printf_def averaging_frame sampling_frame)

lemma loop_body_wdone: "wdone (snd (loop_body fft adc ret st)) = False"
  by (simp add: loop_body_def Let_def stage_record_def printf_def)

lemma main_init_nv_commands:
  "nv_commands (main_init ret_buffer ret_subscribe st) =
     nv_commands st @ [Write_buffer flash_len, Write_done_subscribe]"
  by (simp add: main_init_def Let_def printf_def)

lemma fold_sample_once_console:
  "console (fold (\<lambda>i. sample_once (adc i)) is st) =
     console st @
     map (\<lambda>i. Printf ''Error sampling ADC: %d\<newline>'' [fst (adc i)])
       (filter (\<lambda>i. sint (fst (adc i)) < 0) is)"
  by (induction "is" arbitrary: st) (simp_all add: sample_once_def printf_def Let_def)

lemma sampling_console:
  "console (sampling adc st) =
     console st @
     map (\<lambda>i. Printf ''Error sampling ADC: %d\<newline>'' [fst (adc i)])
       (filter (\<lambda>i. sint (fst (adc i)) < 0) [0..<4])"
  by (simp only: sampling_def fold_sample_once_console)

lemma loop_body_console:
  "console (snd (loop_body fft adc ret st)) =
     console st @
     map (\<lambda>i. Printf ''Error sampling ADC: %d\<newline>'' [fst (adc i)])
       (filter (\<lambda>i. sint (fst (adc i)) < 0) [0..<4]) @
     (if ret \<noteq> 0 then [Printf (CHR 0x09 # ''ERROR calling write\<newline>'') []] else [])"
  by (simp add: loop_body_def Let_def stage_record_def printf_def averaging_frame sampling_console)

subsection \<open>The tracked bins after a pass\<close>

lemma update_bin_fft_mag: "fft_mag (update_bin k l st) = fft_mag st"
  by (simp add: update_bin_def)

lemma update_bin_same:
  "l < length (avg_fft_mag st) \<Longrightarrow>
     avg_fft_mag (update_bin k l st) ! l = movingAvg (avg_fft_mag st ! l) (of_nat k) (fft_mag st ! l)"
  by (simp add: update_bin_def)

lemma fold_update_bin_fft_mag: "fft_mag (fold (update_bin k) ls st) = fft_mag st"
  by (induction ls arbitrary: st) (simp_all add: update_bin_fft_mag)

lemma fold_update_bin_absent:
  "l \<notin> set ls \<Longrightarrow> avg_fft_mag (fold (update_bin k) ls st) ! l = avg_fft_mag st ! l"
  by (induction ls arbitrary: st) (simp_all add: update_bin_other)

lemma fold_update_bin_present:
  "distinct ls \<Longrightarrow> l \<in> set ls \<Longrightarrow> l < length (avg_fft_mag st) \<Longrightarrow>
     avg_fft_mag (fold (update_bin k) ls st) ! l =
       movingAvg (avg_fft_mag st ! l) (of_nat k) (fft_mag st ! l)"
proof (induction ls arbitrary: st)
  case Nil
  then show ?case by simp
next
  case (Cons x ls)
  show ?case
  proof (cases "x = l")
    case True
    with Cons.prems have "l \<notin> set ls" by simp
    with True Cons.prems(3) show ?thesis
      by (simp add: fold_update_bin_absent update_bin_same)
  next
    case False
    with Cons.prems have "l \<in> set ls" "distinct ls" by simp_all
    moreover from Cons.prems(3) have "l < length (avg_fft_mag (update_bin k x st))"
      by (simp add: update_bin_length)
    ultimately show ?thesis
      using Cons.IH [of "update_bin k x st"] False
      by (simp add: update_bin_other update_bin_fft_mag)
  qed
qed

lemma window_step_tracked:
  assumes "l \<in> {3..<8}" and "l < length (avg_fft_mag st)"
  shows "\<exists>v. avg_fft_mag (window_step fft k st) ! l = movingAvg (avg_fft_mag st ! l) (of_nat k) v"
proof -
  let ?s0 = "call_fft fft (copy_window k st)"
  have "l \<in> set [3..<8]" using assms(1) by (simp only: set_upt)
  moreover have "distinct [3..<8]" by (simp only: distinct_upt)
  moreover have "l < length (avg_fft_mag ?s0)"
    using assms(2) by (simp add: call_fft_frame copy_window_frame)
  ultimately have "avg_fft_mag (fold (update_bin k) [3..<8] ?s0) ! l =
          movingAvg (avg_fft_mag ?s0 ! l) (of_nat k) (fft_mag ?s0 ! l)"
    by (intro fold_update_bin_present)
  then show ?thesis
    by (auto simp add: window_step_def call_fft_frame copy_window_frame)
qed

lemma window_step_nan:
  assumes "l \<in> {3..<8}" and "length (avg_fft_mag s) = 8" and "decode (avg_fft_mag s ! l) = FNaN"
  shows "avg_fft_mag (window_step fft k s) ! l = quiet (avg_fft_mag s ! l)"
proof -
  from assms(1,2) have "l < length (avg_fft_mag s)" by simp
  from window_step_tracked [OF assms(1) this, of fft k] assms(3) show ?thesis
    by (auto simp add: movingAvg_nan)
qed

lemma fold_window_step_keeps_nan:
  assumes "l \<in> {3..<8}" and "length (avg_fft_mag s) = 8" and "decode (avg_fft_mag s ! l) = FNaN"
  shows "decode (avg_fft_mag (fold (window_step fft) ks s) ! l) = FNaN \<and>
         length (avg_fft_mag (fold (window_step fft) ks s)) = 8"
proof (rule fold_preserves
    [where P = "\<lambda>s. decode (avg_fft_mag s ! l) = FNaN \<and> length (avg_fft_mag s) = 8"])
  show "decode (avg_fft_mag s ! l) = FNaN \<and> length (avg_fft_mag s) = 8"
    using assms by simp
next
  fix k and t :: main_state
  assume "k \<in> set ks"
    and p: "decode (avg_fft_mag t ! l) = FNaN \<and> length (avg_fft_mag t) = 8"
  then have "avg_fft_mag (window_step fft k t) ! l = quiet (avg_fft_mag t ! l)"
    using assms(1) by (simp add: window_step_nan)
  with p show "decode (avg_fft_mag (window_step fft k t) ! l) = FNaN \<and>
      length (avg_fft_mag (window_step fft k t)) = 8"
    by (simp add: decode_quiet window_step_length)
qed

lemma two_windows_nan:
  assumes "l \<in> {3..<8}" and "length (avg_fft_mag st) = 8"
  shows "decode (avg_fft_mag (window_step fft 1 (window_step fft 0 st)) ! l) = FNaN"
proof -
  let ?s1 = "window_step fft 0 st"
  from assms have l0: "l < length (avg_fft_mag st)" by simp
  then have l1: "l < length (avg_fft_mag ?s1)" by (simp add: window_step_length)
  from window_step_tracked [OF assms(1) l0, of fft 0]
  obtain v where v: "avg_fft_mag ?s1 ! l = movingAvg (avg_fft_mag st ! l) 0 v" by auto
  from window_step_tracked [OF assms(1) l1, of fft 1]
  obtain w where "avg_fft_mag (window_step fft 1 ?s1) ! l = movingAvg (avg_fft_mag ?s1 ! l) 1 w"
    by auto
  with v show ?thesis by (simp add: movingAvg_0_then_1)
qed

lemma upt_31: "[0..<31] = 0 # 1 # [2..<31]"
  by (simp add: upt_rec)

lemma first_pass_nan:
  assumes "l \<in> {3..<8}" and "length (avg_fft_mag st) = 8"
  shows "decode (avg_fft_mag (fold (window_step fft) [0..<31] st) ! l) = FNaN \<and>
         length (avg_fft_mag (fold (window_step fft) [0..<31] st)) = 8"
proof -
  let ?s2 = "window_step fft 1 (window_step fft 0 st)"
  have "length (avg_fft_mag ?s2) = 8" using assms(2) by (simp add: window_step_length)
  from fold_window_step_keeps_nan [OF assms(1) this two_windows_nan [OF assms], of fft "[2..<31]"]
  show ?thesis by (simp only: upt_31 fold_simps comp_apply)
qed

lemma averaging_tracked_nan:
  assumes "length (avg_fft_mag st) = 8" and "l \<in> {3..<8}"
  shows "decode (avg_fft_mag (averaging fft st) ! l) = FNaN"
proof -
  let ?pass = "fold (window_step fft) [0..<31]"
  have up: "[0..<4] = 0 # [1..<4]" by (simp add: upt_rec)
  have "decode (avg_fft_mag (fold (\<lambda>j. ?pass) [1..<4] (?pass st)) ! l) = FNaN \<and>
        length (avg_fft_mag (fold (\<lambda>j. ?pass) [1..<4] (?pass st))) = 8"
    by (rule fold_preserves
          [where P = "\<lambda>s. decode (avg_fft_mag s ! l) = FNaN \<and> length (avg_fft_mag s) = 8"])
       (simp_all add: fold_window_step_keeps_nan [OF assms(2)] first_pass_nan [OF assms(2,1)])
  then show ?thesis
    by (simp only: averaging_def windows up fold_simps)
qed

text \<open>
  In the program itself: after the loop body every tracked bin holds a NaN, whatever the
  array held before and whatever was sampled.
\<close>

lemma tracked_bins_nan_after_cycle:
  assumes "length (avg_fft_mag st) = 8" and "l \<in> {3..<8}"
  shows "decode (avg_fft_mag (snd (loop_body fft adc ret st)) ! l) = FNaN"
proof -
  have "length (avg_fft_mag (sampling adc st)) = 8"
    using assms(1) by (simp add: sampling_frame)
  from averaging_tracked_nan [OF this assms(2)] show ?thesis
    by (simp add: loop_body_avg)
qed




subsection \<open>One write at a time\<close>

lemma step_invariant:
  assumes "step fft s s'"
    and "if at s = In_yield_for
         then accepted s = Suc (observed s) \<and> pending s = (if wdone (app s) then 0 else 1)
         else accepted s = observed s \<and> pending s = 0"
  shows "if at s' = In_yield_for
         then accepted s' = Suc (observed s') \<and> pending s' = (if wdone (app s') then 0 else 1)
         else accepted s' = observed s' \<and> pending s' = 0"
  using assms
proof (cases rule: step.cases)
  case (step_issue adc)
  with assms(2) show ?thesis by (simp add: issue_def loop_body_wdone)
next
  case (step_reject ret adc)
  with assms(2) show ?thesis by (simp add: reject_def)
next
  case step_complete
  with assms(2) show ?thesis by (auto simp add: complete_def write_done_def split: if_splits)
next
  case step_wake
  with assms(2) show ?thesis by (simp add: wake_def)
next
  case step_pace
  with assms(2) show ?thesis by (simp add: pace_def)
qed

lemma reachable_invariant:
  "reachable fft st s \<Longrightarrow>
     (if at s = In_yield_for
      then accepted s = Suc (observed s) \<and> pending s = (if wdone (app s) then 0 else 1)
      else accepted s = observed s \<and> pending s = 0)"
proof (induction rule: reachable.induct)
  case (reachable_init ret_buffer ret_subscribe)
  show ?case by (simp add: initial_system_def)
next
  case (reachable_step s s')
  from step_invariant [OF reachable_step.hyps(2) reachable_step.IH] show ?case .
qed

subsection \<open>The first calls of a cycle\<close>






section \<open>Properties of the application\<close>

text \<open>
  C9. In every cycle only the bins 3 to 7 are updated: the averages of the bins 0, 1 and 2
  are the same after the loop body as before it, whatever the transform, the sampling
  results and the return code of the write; the array keeps its length and every call of
  \<open>movingAvg\<close> the loop body adds is for a bin from 3 to 7.
\<close>

theorem untracked_bins_unchanged:
  "i < 3 \<Longrightarrow>
     avg_fft_mag (snd (loop_body fft adc ret st)) ! i = avg_fft_mag st ! i \<and>
     length (avg_fft_mag (snd (loop_body fft adc ret st))) = length (avg_fft_mag st) \<and>
     call_bin ` set (movingAvg_calls (snd (loop_body fft adc ret st))) \<subseteq>
       call_bin ` set (movingAvg_calls st) \<union> {3..<8}"
proof -
  assume i: "i < 3"
  let ?f = "\<lambda>c. (call_bin c, call_num_samples c)"
  let ?cs' = "movingAvg_calls (snd (loop_body fft adc ret st))"
  let ?L = "concat (map (\<lambda>j. concat (map (\<lambda>k. map (\<lambda>l. (l, of_nat k :: 32 word)) [3..<8]) [0..<31])) [0..<4])"
  have m: "map ?f ?cs' = map ?f (movingAvg_calls st) @ ?L"
    by (simp only: loop_body_calls averaging_calls sampling_frame)
  have "call_bin ` set ?cs' = fst ` set (map ?f ?cs')"
    by (simp add: image_image)
  also have "\<dots> = fst ` set (map ?f (movingAvg_calls st)) \<union> fst ` set ?L"
    by (simp only: m set_append image_Un)
  also have "fst ` set (map ?f (movingAvg_calls st)) = call_bin ` set (movingAvg_calls st)"
    by (simp add: image_image)
  also have "fst ` set ?L \<subseteq> {3..<8}"
    by auto
  finally have "call_bin ` set ?cs' \<subseteq> call_bin ` set (movingAvg_calls st) \<union> {3..<8}"
    by auto
  moreover from i have "avg_fft_mag (snd (loop_body fft adc ret st)) ! i = avg_fft_mag st ! i"
    by (simp add: loop_body_untracked)
  ultimately show ?thesis by (simp add: loop_body_length_avg)
qed

theorem untracked_bins_unchanged_witness:
  "(1::nat) < 3 \<and>
   avg_fft_mag (snd (loop_body zero_fft failing_adc 0 (example_state example_avg))) ! 1 = 0x40000000"
  using untracked_bins_unchanged [of 1 zero_fft failing_adc 0 "example_state example_avg"]
  by (simp add: example_state_def example_avg_def)

text \<open>
  C7. The claim: the observation count given to the update never decreases within a cycle
  and is never reset. The count the program gives to \<open>movingAvg\<close> is the window counter
  \<open>k\<close> of the current pass. In the example cycle the call number 154 (the last of the
  first pass) is given the count 30 and the call number 155 (the first of the second
  pass) the count 0.
\<close>

theorem count_restarts_counterexample:
  "call_num_samples
     (movingAvg_calls (snd (loop_body zero_fft silent_adc 0 (example_state example_avg))) ! 154) = 30 \<and>
   call_num_samples
     (movingAvg_calls (snd (loop_body zero_fft silent_adc 0 (example_state example_avg))) ! 155) = 0 \<and>
   \<not> sint (call_num_samples
       (movingAvg_calls (snd (loop_body zero_fft silent_adc 0 (example_state example_avg))) ! 154))
     \<le> sint (call_num_samples
       (movingAvg_calls (snd (loop_body zero_fft silent_adc 0 (example_state example_avg))) ! 155))"
proof -
  let ?f = "\<lambda>c. (call_bin c, call_num_samples c)"
  let ?cs = "movingAvg_calls (snd (loop_body zero_fft silent_adc 0 (example_state example_avg)))"
  let ?L = "concat (map (\<lambda>j. concat (map (\<lambda>k. map (\<lambda>l. (l, of_nat k :: 32 word)) [3..<8]) [0..<31])) [0..<4])"
  have "map ?f ?cs = map ?f (movingAvg_calls (example_state example_avg)) @ ?L"
    by (simp only: loop_body_calls averaging_calls sampling_frame)
  then have m: "map ?f ?cs = ?L"
    by (simp add: example_state_def)
  have len: "length ?L = 620"
    by code_simp
  from m have "length ?cs = length ?L"
    by (metis length_map)
  with len have l: "length ?cs = 620" by simp
  have "?f (?cs ! 154) = map ?f ?cs ! 154" "?f (?cs ! 155) = map ?f ?cs ! 155"
    using l by simp_all
  moreover have "?L ! 154 = (7, 30)" "?L ! 155 = (3, 0)"
    by code_simp+
  ultimately have "?f (?cs ! 154) = (7, 30)" "?f (?cs ! 155) = (3, 0)"
    by (simp_all only: m)
  then show ?thesis by simp
qed

text \<open>
  C7, as the program has it: the counts given to \<open>movingAvg\<close> in one cycle are those of
  the loop nest. In each of the four passes the count runs through the window numbers
  \<open>0, 1, ..., 30\<close>, each of them given to the five bins 3 to 7 in turn, and the next pass
  starts again from \<open>0\<close>.
\<close>

theorem count_is_window_counter:
  "map (\<lambda>c. (call_bin c, call_num_samples c)) (movingAvg_calls (snd (loop_body fft adc ret st))) =
     map (\<lambda>c. (call_bin c, call_num_samples c)) (movingAvg_calls st) @
     concat (map (\<lambda>j. concat (map (\<lambda>k. map (\<lambda>l. (l, of_nat k)) [3..<8]) [0..<31])) [0..<4])"
  by (simp only: loop_body_calls averaging_calls sampling_frame)

text \<open>
  C5. The claim: the serialized record holds the averages of the tracked bins 3 to 7 only,
  so that its size is five values of four bytes. In the example cycle the record is not
  20 bytes long, and its first four bytes are the bytes of the average of bin 0 (\<open>1.0\<close>).
\<close>

theorem record_is_whole_array_counterexample:
  "length (writebuf (snd (loop_body zero_fft silent_adc 0 (example_state example_avg)))) \<noteq>
     5 * sizeof_float \<and>
   take 4 (writebuf (snd (loop_body zero_fft silent_adc 0 (example_state example_avg)))) =
     float_bytes 0x3F800000"
proof -
  let ?st = "example_state example_avg"
  let ?st' = "snd (loop_body zero_fft silent_adc 0 ?st)"
  have wf: "length (avg_fft_mag ?st) = 8" "length (writebuf ?st) = flash_len"
    by (simp_all add: example_state_def example_avg_def flash_len_def sizeof_float_def)
  have r: "writebuf ?st' = concat (map float_bytes (avg_fft_mag ?st'))"
    using wf by (rule loop_body_record)
  have l: "length (avg_fft_mag ?st') = 8"
    using wf(1) by (simp add: loop_body_length_avg)
  have "take 4 (drop (4 * 0) (writebuf ?st')) = float_bytes (avg_fft_mag ?st' ! 0)"
    unfolding r by (rule chunk_concat_float_bytes) (simp add: l)
  moreover have "avg_fft_mag ?st' ! 0 = avg_fft_mag ?st ! 0"
    by (rule loop_body_untracked) simp
  moreover have "avg_fft_mag ?st ! 0 = 0x3F800000"
    by (simp add: example_state_def example_avg_def)
  moreover have "length (writebuf ?st') = 32"
    by (simp add: r length_concat_float_bytes l)
  ultimately show ?thesis by (simp add: sizeof_float_def)
qed

text \<open>
  C5, as the program has it: the record is the whole array of averages, the eight bins 0
  to 7 in ascending order, four bytes each, 32 bytes in all; the bytes \<open>4 * i\<close> to
  \<open>4 * i + 3\<close> are those of the average of bin \<open>i\<close>. No count is part of it.
\<close>

theorem record_is_whole_array:
  assumes "length (avg_fft_mag st) = 8" and "length (writebuf st) = flash_len"
  shows "writebuf (snd (loop_body fft adc ret st)) =
           concat (map float_bytes (avg_fft_mag (snd (loop_body fft adc ret st)))) \<and>
         length (writebuf (snd (loop_body fft adc ret st))) = 8 * sizeof_float \<and>
         (\<forall>i<8. take sizeof_float (drop (sizeof_float * i) (writebuf (snd (loop_body fft adc ret st)))) =
                   float_bytes (avg_fft_mag (snd (loop_body fft adc ret st)) ! i))"
proof -
  let ?st' = "snd (loop_body fft adc ret st)"
  have r: "writebuf ?st' = concat (map float_bytes (avg_fft_mag ?st'))"
    using assms by (rule loop_body_record)
  have l: "length (avg_fft_mag ?st') = 8"
    using assms(1) by (simp add: loop_body_length_avg)
  have "take 4 (drop (4 * i) (writebuf ?st')) = float_bytes (avg_fft_mag ?st' ! i)" if "i < 8" for i
    unfolding r using that by (intro chunk_concat_float_bytes) (simp add: l)
  moreover have "length (writebuf ?st') = 32"
    by (simp add: r length_concat_float_bytes l)
  ultimately show ?thesis using r by (simp add: sizeof_float_def)
qed

theorem record_is_whole_array_witness:
  "length (avg_fft_mag (example_state example_avg)) = 8 \<and>
   length (writebuf (example_state example_avg)) = flash_len \<and>
   length (writebuf (snd (loop_body zero_fft silent_adc 0 (example_state example_avg)))) = 32"
proof -
  have wf: "length (avg_fft_mag (example_state example_avg)) = 8"
    "length (writebuf (example_state example_avg)) = flash_len"
    by (simp_all add: example_state_def example_avg_def flash_len_def sizeof_float_def)
  from record_is_whole_array [OF wf, of zero_fft silent_adc 0]
  have "length (writebuf (snd (loop_body zero_fft silent_adc 0 (example_state example_avg)))) =
      8 * sizeof_float"
    by blast
  with wf show ?thesis
    by (simp add: sizeof_float_def)
qed

text \<open>
  The record also depends on the first contents of the bins 0 to 2, which are copied into
  it and never written.
\<close>

lemma record_depends_on_untracked_bins:
  assumes "length (avg_fft_mag st1) = 8" and "length (writebuf st1) = flash_len"
    and "length (avg_fft_mag st2) = 8" and "length (writebuf st2) = flash_len"
    and "i < 3" and "avg_fft_mag st1 ! i \<noteq> avg_fft_mag st2 ! i"
  shows "writebuf (snd (loop_body fft adc ret st1)) \<noteq> writebuf (snd (loop_body fft adc ret st2))"
proof -
  let ?a1 = "avg_fft_mag (snd (loop_body fft adc ret st1))"
  let ?a2 = "avg_fft_mag (snd (loop_body fft adc ret st2))"
  let ?w1 = "writebuf (snd (loop_body fft adc ret st1))"
  let ?w2 = "writebuf (snd (loop_body fft adc ret st2))"
  have r1: "?w1 = concat (map float_bytes ?a1)"
    using assms(1,2) by (rule loop_body_record)
  have r2: "?w2 = concat (map float_bytes ?a2)"
    using assms(3,4) by (rule loop_body_record)
  from assms(5) have i8: "i < length ?a1" "i < length ?a2"
    using assms(1,3) by (simp_all add: loop_body_length_avg)
  have c1: "take 4 (drop (4 * i) ?w1) = float_bytes (?a1 ! i)"
    unfolding r1 using i8(1) by (rule chunk_concat_float_bytes)
  have c2: "take 4 (drop (4 * i) ?w2) = float_bytes (?a2 ! i)"
    unfolding r2 using i8(2) by (rule chunk_concat_float_bytes)
  from assms(5) have "?a1 ! i = avg_fft_mag st1 ! i" "?a2 ! i = avg_fft_mag st2 ! i"
    by (simp_all add: loop_body_untracked)
  with assms(6) have "float_bytes (?a1 ! i) \<noteq> float_bytes (?a2 ! i)"
    by (auto dest: float_bytes_inject)
  with c1 c2 show ?thesis by auto
qed



text \<open>
  C4. The claim: the one write of a cycle is issued at offset 0 with the length of the
  record that was staged. The loop body issues exactly one write command, at offset 0,
  but with the length 2000, while the buffer shared with the driver and the staged
  record have \<open>flash_len = 32\<close> bytes.
\<close>

theorem write_length_is_2000:
  "nv_commands (snd (loop_body fft adc ret st)) = nv_commands st @ [Nv_write 0 2000] \<and>
   nv_commands (main_init ret_buffer ret_subscribe st) =
     nv_commands st @ [Write_buffer 32, Write_done_subscribe] \<and>
   flash_len = 32"
  by (simp add: loop_body_nv_commands main_init_nv_commands flash_len_def sizeof_float_def)

text \<open>
  C6. The claim: after a failure of the sampling call or of the write call the loop goes
  on. In the example cycle the write call returns the code 1 and the loop body ends in
  \<open>return 1\<close>.
\<close>

theorem write_failure_returns_counterexample:
  "fst (loop_body zero_fft silent_adc 1 (example_state example_avg)) = Return 1"
  by (simp add: loop_body_exit)

text \<open>
  C6, as the program has it: whatever the sampling calls return, the loop body goes on:
  each negative sampling code is printed, the averaging runs over what the sampling left
  in the buffer (all its calls of \<open>movingAvg\<close> are made), the array of averages is staged
  in the write buffer and the write is issued. When the write call returns \<open>0\<close> the loop
  body goes on to \<open>yield_for\<close>, and when it returns another code the failure is printed
  and \<open>main\<close> returns that code.
\<close>

theorem failures_logged_write_failure_returns:
  "fst (loop_body fft adc ret st) = (if ret = 0 then Yield_for_wdone else Return ret) \<and>
   console (snd (loop_body fft adc ret st)) =
     console st @
     map (\<lambda>i. Printf ''Error sampling ADC: %d\<newline>'' [fst (adc i)])
       (filter (\<lambda>i. sint (fst (adc i)) < 0) [0..<4]) @
     (if ret \<noteq> 0 then [Printf (CHR 0x09 # ''ERROR calling write\<newline>'') []] else []) \<and>
   avg_fft_mag (snd (loop_body fft adc ret st)) = avg_fft_mag (averaging fft (sampling adc st)) \<and>
   map (\<lambda>c. (call_bin c, call_num_samples c)) (movingAvg_calls (snd (loop_body fft adc ret st))) =
     map (\<lambda>c. (call_bin c, call_num_samples c)) (movingAvg_calls st) @
     concat (map (\<lambda>j. concat (map (\<lambda>k. map (\<lambda>l. (l, of_nat k)) [3..<8]) [0..<31])) [0..<4]) \<and>
   writebuf (snd (loop_body fft adc ret st)) =
     memcpy (writebuf st) (concat (map float_bytes (avg_fft_mag (snd (loop_body fft adc ret st)))))
       flash_len \<and>
   nv_commands (snd (loop_body fft adc ret st)) = nv_commands st @ [Nv_write 0 2000]"
proof -
  have "map (\<lambda>c. (call_bin c, call_num_samples c)) (movingAvg_calls (snd (loop_body fft adc ret st))) =
     map (\<lambda>c. (call_bin c, call_num_samples c)) (movingAvg_calls st) @
     concat (map (\<lambda>j. concat (map (\<lambda>k. map (\<lambda>l. (l, of_nat k)) [3..<8]) [0..<31])) [0..<4])"
    by (simp only: loop_body_calls averaging_calls sampling_frame)
  moreover have "writebuf (snd (loop_body fft adc ret st)) =
     memcpy (writebuf st) (concat (map float_bytes (avg_fft_mag (snd (loop_body fft adc ret st)))))
       flash_len"
    by (rule loop_body_writebuf)
  moreover note loop_body_exit [of fft adc ret st] loop_body_console [of fft adc ret st]
    loop_body_avg [of fft adc ret st] loop_body_nv_commands [of fft adc ret st]
  ultimately show ?thesis by (intro conjI)
qed

theorem failures_logged_write_failure_returns_witness:
  "fst (loop_body zero_fft failing_adc 0 (example_state example_avg)) = Yield_for_wdone \<and>
   console (snd (loop_body zero_fft failing_adc 0 (example_state example_avg))) =
     [Printf ''Error sampling ADC: %d\<newline>'' [- 1]] \<and>
   length (movingAvg_calls (snd (loop_body zero_fft failing_adc 0 (example_state example_avg)))) = 620 \<and>
   nv_commands (snd (loop_body zero_fft failing_adc 0 (example_state example_avg))) =
     [Nv_write 0 2000] \<and>
   fst (loop_body zero_fft failing_adc 1 (example_state example_avg)) = Return 1 \<and>
   console (snd (loop_body zero_fft failing_adc 1 (example_state example_avg))) =
     [Printf ''Error sampling ADC: %d\<newline>'' [- 1],
      Printf (CHR 0x09 # ''ERROR calling write\<newline>'') []] \<and>
   nv_commands (snd (loop_body zero_fft failing_adc 1 (example_state example_avg))) =
     [Nv_write 0 2000]"
proof -
  let ?st = "example_state example_avg"
  let ?f = "\<lambda>c. (call_bin c, call_num_samples c)"
  let ?L = "concat (map (\<lambda>j. concat (map (\<lambda>k. map (\<lambda>l. (l, of_nat k :: 32 word)) [3..<8]) [0..<31])) [0..<4])"
  have f: "filter (\<lambda>i. sint (fst (failing_adc i)) < 0) [0..<4] = [0]"
    by (simp add: failing_adc_def upt_rec)
  have c: "console ?st = []" "nv_commands ?st = []" "movingAvg_calls ?st = []"
    by (simp_all add: example_state_def)
  have e: "fst (failing_adc 0) = - 1"
    by (simp add: failing_adc_def)
  have len: "length ?L = 620"
    by code_simp
  note t0 = failures_logged_write_failure_returns [of zero_fft failing_adc 0 ?st]
  note t1 = failures_logged_write_failure_returns [of zero_fft failing_adc 1 ?st]
  from t0 have x0: "fst (loop_body zero_fft failing_adc 0 ?st) = Yield_for_wdone"
    by simp
  from t0 have c0: "console (snd (loop_body zero_fft failing_adc 0 ?st)) =
      [Printf ''Error sampling ADC: %d\<newline>'' [- 1]]"
    by (simp add: f c e)
  from t0 have "map ?f (movingAvg_calls (snd (loop_body zero_fft failing_adc 0 ?st))) =
      map ?f (movingAvg_calls ?st) @ ?L"
    by blast
  then have "map ?f (movingAvg_calls (snd (loop_body zero_fft failing_adc 0 ?st))) = ?L"
    by (simp only: c list.map append_Nil)
  then have "length (movingAvg_calls (snd (loop_body zero_fft failing_adc 0 ?st))) = length ?L"
    by (metis length_map)
  then have m0: "length (movingAvg_calls (snd (loop_body zero_fft failing_adc 0 ?st))) = 620"
    by (simp only: len)
  from t0 have n0: "nv_commands (snd (loop_body zero_fft failing_adc 0 ?st)) = [Nv_write 0 2000]"
    by (simp add: c)
  from t1 have x1: "fst (loop_body zero_fft failing_adc 1 ?st) = Return 1"
    by simp
  from t1 have c1: "console (snd (loop_body zero_fft failing_adc 1 ?st)) =
      [Printf ''Error sampling ADC: %d\<newline>'' [- 1],
       Printf (CHR 0x09 # ''ERROR calling write\<newline>'') []]"
    by (simp add: f c e)
  from t1 have n1: "nv_commands (snd (loop_body zero_fft failing_adc 1 ?st)) = [Nv_write 0 2000]"
    by (simp add: c)
  from x0 c0 m0 n0 x1 c1 n1 show ?thesis by (intro conjI)
qed

text \<open>
  C3. At most one write is outstanding. In every state the system can reach, at most one
  accepted write is waiting for its callback; and whenever \<open>main\<close> is anywhere but inside
  \<open>yield_for\<close> (at the top of the loop, where the next cycle and then the next write
  begin, or in \<open>delay_ms\<close>) no write is waiting and \<open>yield_for\<close> has returned once for
  every write accepted so far, each time after seeing the flag set.
\<close>

theorem one_write_outstanding:
  "reachable fft st s \<Longrightarrow>
     pending s \<le> 1 \<and>
     (at s = Loop_top \<longrightarrow> pending s = 0 \<and> observed s = accepted s) \<and>
     (at s = In_delay_ms \<longrightarrow> pending s = 0 \<and> observed s = accepted s) \<and>
     (at s = In_yield_for \<longrightarrow> accepted s = Suc (observed s))"
  using reachable_invariant [of fft st s] by (auto split: if_splits)

lemma reachable_first_cycle_done:
  "reachable zero_fft (example_state example_avg) first_cycle_done"
proof -
  let ?st = "example_state example_avg"
  let ?s0 = "initial_system (main_init 0 0 ?st)"
  let ?s1 = "issue zero_fft silent_adc ?s0"
  let ?s2 = "complete ?s1"
  let ?s3 = "wake ?s2"
  have r0: "reachable zero_fft ?st ?s0" by (rule reachable_init)
  have "step zero_fft ?s0 ?s1" by (rule step_issue) (simp add: initial_system_def)
  with r0 have r1: "reachable zero_fft ?st ?s1" by (rule reachable_step)
  have "step zero_fft ?s1 ?s2" by (rule step_complete) (simp add: issue_def)
  with r1 have r2: "reachable zero_fft ?st ?s2" by (rule reachable_step)
  have "step zero_fft ?s2 ?s3"
    by (rule step_wake) (simp_all add: complete_def issue_def write_done_def)
  with r2 have r3: "reachable zero_fft ?st ?s3" by (rule reachable_step)
  have "step zero_fft ?s3 (pace ?s3)" by (rule step_pace) (simp add: wake_def)
  with r3 show ?thesis unfolding first_cycle_done_def by (rule reachable_step)
qed

lemma reachable_second_write_in_flight:
  "reachable zero_fft (example_state example_avg) second_write_in_flight"
proof -
  have "step zero_fft first_cycle_done (issue zero_fft silent_adc first_cycle_done)"
    by (rule step_issue) (simp add: first_cycle_done_def pace_def)
  with reachable_first_cycle_done show ?thesis
    unfolding second_write_in_flight_def by (rule reachable_step)
qed

theorem one_write_outstanding_witness:
  "reachable zero_fft (example_state example_avg) first_cycle_done \<and>
   at first_cycle_done = Loop_top \<and> accepted first_cycle_done = 1 \<and>
   observed first_cycle_done = 1 \<and> pending first_cycle_done = 0 \<and>
   reachable zero_fft (example_state example_avg) second_write_in_flight \<and>
   at second_write_in_flight = In_yield_for \<and> accepted second_write_in_flight = 2 \<and>
   observed second_write_in_flight = 1 \<and> pending second_write_in_flight = 1"
proof -
  have a1: "at first_cycle_done = Loop_top" "accepted first_cycle_done = 1"
    by (simp_all add: first_cycle_done_def issue_def pace_def wake_def complete_def
        initial_system_def)
  have a2: "at second_write_in_flight = In_yield_for" "pending second_write_in_flight = 1"
    "observed second_write_in_flight = 1"
    by (simp_all add: second_write_in_flight_def first_cycle_done_def issue_def pace_def wake_def
        complete_def initial_system_def)
  from one_write_outstanding [OF reachable_first_cycle_done] a1
  have b1: "pending first_cycle_done = 0" "observed first_cycle_done = 1"
    by simp_all
  from one_write_outstanding [OF reachable_second_write_in_flight] a2
  have b2: "accepted second_write_in_flight = 2"
    by simp
  from a1 a2 b1 b2 reachable_first_cycle_done reachable_second_write_in_flight
  show ?thesis by simp
qed

end
